theory Spec2Isabelle
  imports Complex_Main "HOL-Library.Multiset"
begin

section \<open>Errors\<close>

text \<open>
  The source has no exception classes of its own. Every precondition is an \<^verbatim>\<open>assert\<close>
  (AssertionError); the other failures are raised by NumPy: an out-of-range index
  (IndexError), an empty concatenation or an impossible sample size (ValueError), and a
  Python integer that does not fit the array's integer type (OverflowError).
\<close>

datatype error = AssertionError | IndexError | ValueError | OverflowError

section \<open>liar/util.py: the label-format converter\<close>

text \<open>
  A sample matrix is the list of its rows. All matrices of one run share their columns, so
  a row is a value of one type \<open>'a\<close>, and \<^verbatim>\<open>np.concatenate\<close> along axis 0 is list
  concatenation; it raises ValueError when it is given no array at all.
\<close>

definition np_concatenate :: "'a list list \<Rightarrow> error + 'a list" where
  "np_concatenate arrays = (if arrays = [] then Inl ValueError else Inr (concat arrays))"

text \<open>
  \<^verbatim>\<open>np.ones((n,), dtype=np.int8) * i\<close> with a Python integer \<open>i\<close>. What NumPy does when
  \<open>i\<close> does not fit int8 depends on its casting rule, which the model takes as a parameter:
  value-based casting (NumPy 1) widens the result type (int16, int32, int64: a Python
  sequence has fewer than \<open>2 ^ 63\<close> elements, so the index always fits); the weak-scalar
  rule (NumPy 2) keeps int8 and raises OverflowError for \<open>i > 127\<close>, whatever \<open>n\<close> is.
\<close>

datatype casting = Value_Based | Weak_Scalar

definition int8_ones_times :: "casting \<Rightarrow> nat \<Rightarrow> nat \<Rightarrow> error + int list" where
  "int8_ones_times c n i =
     (if c = Weak_Scalar \<and> 127 < i then Inl OverflowError else Inr (replicate n (int i)))"

text \<open>A list comprehension whose elements may raise: the first error ends it.\<close>

fun collect :: "(error + 'a) list \<Rightarrow> error + 'a list" where
  "collect [] = Inr []"
| "collect (r # rs) =
     (case r of
        Inl e \<Rightarrow> Inl e
      | Inr v \<Rightarrow> (case collect rs of Inl e \<Rightarrow> Inl e | Inr vs \<Rightarrow> Inr (v # vs)))"

definition Xn_to_Xy :: "casting \<Rightarrow> 'a list list \<Rightarrow> error + ('a list \<times> int list)" where
  "Xn_to_Xy c Xn =
     (case np_concatenate Xn of
        Inl e \<Rightarrow> Inl e
      | Inr X \<Rightarrow>
          (case collect (map (\<lambda>(i, Xi). int8_ones_times c (length Xi) i) (enumerate 0 Xn)) of
             Inl e \<Rightarrow> Inl e
           | Inr blocks \<Rightarrow>
               (case np_concatenate blocks of Inl e \<Rightarrow> Inl e | Inr y \<Rightarrow> Inr (X, y))))"

text \<open>\<^verbatim>\<open>np.unique\<close>: the distinct values, ascending.\<close>

definition np_unique :: "'l::linorder list \<Rightarrow> 'l list" where
  "np_unique y = remdups_adj (sort y)"

text \<open>
  \<^verbatim>\<open>X[mask]\<close> with a boolean mask over the rows. NumPy raises IndexError when the
  mask and \<open>X\<close> differ in length; \<open>Xy_to_Xn\<close> has asserted equal lengths before.
\<close>

definition boolean_index :: "'a list \<Rightarrow> bool list \<Rightarrow> 'a list" where
  "boolean_index X keep = map fst (filter snd (zip X keep))"

text \<open>
  \<open>y\<close> is reshaped to one column, so \<^verbatim>\<open>y.shape[0]\<close> is its number of entries and the
  second assertion (\<^verbatim>\<open>y.shape[1] == 1\<close>) cannot fail.
\<close>

definition Xy_to_Xn :: "'a list \<Rightarrow> 'l::linorder list \<Rightarrow> error + 'a list list" where
  "Xy_to_Xn X y =
     (if length X \<noteq> length y then Inl AssertionError
      else let y_uniq = np_unique y in
        if length y_uniq \<noteq> 2 then Inl AssertionError
        else Inr (map (\<lambda>yvalue. boolean_index X (map (\<lambda>l. l = yvalue) y)) y_uniq))"

section \<open>lir/transformers.py: AbsDiffTransformer\<close>







section \<open>lir/transformers.py: InstancePairing\<close>

subsection \<open>The random source\<close>

text \<open>
  \<^verbatim>\<open>np.random.choice(a, size, replace=False)\<close> reads NumPy's global generator. The model
  passes the generator's state explicitly: the raw draws still to come (a generator that
  has run out keeps drawing 0). A sample of size \<open>k\<close> without replacement takes \<open>k\<close> times one of
  the elements that are left, at the position the next draw selects, so that every
  arrangement of \<open>k\<close> distinct positions of \<open>a\<close> is the result for some state. NumPy
  raises ValueError for a negative size and for a size beyond the population.
\<close>

type_synonym rng = "nat list"

fun next_draw :: "rng \<Rightarrow> nat \<times> rng" where
  "next_draw [] = (0, [])"
| "next_draw (r # g) = (r, g)"

fun draw_without_replacement :: "rng \<Rightarrow> 'a list \<Rightarrow> nat \<Rightarrow> 'a list \<times> rng" where
  "draw_without_replacement g a 0 = ([], g)"
| "draw_without_replacement g a (Suc k) =
     (if a = [] then ([], g)
      else let (r, g') = next_draw g;
               i = r mod length a;
               (rest, g'') = draw_without_replacement g' (take i a @ drop (Suc i) a) k
           in (a ! i # rest, g''))"

definition np_random_choice :: "rng \<Rightarrow> 'a list \<Rightarrow> int \<Rightarrow> error + ('a list \<times> rng)" where
  "np_random_choice g a k =
     (if k < 0 \<or> int (length a) < k then Inl ValueError
      else Inr (draw_without_replacement g a (nat k)))"

subsection \<open>The transformer\<close>

text \<open>
  \<open>different_source_limit\<close> is \<^verbatim>\<open>None\<close>, the string \<^verbatim>\<open>'balanced'\<close> or an integer;
  \<open>same_source_limit\<close> is \<^verbatim>\<open>None\<close> or an integer. \<open>pairing\<close> is the attribute that
  \<open>transform\<close> sets; a new object does not have it.
\<close>

datatype ds_limit = DS_None | DS_Balanced | DS_Int int

record InstancePairing =
  ss_limit :: "int option"
  ds_limit :: ds_limit
  pairing :: "(nat \<times> nat) list option"

definition InstancePairing_init :: "int option \<Rightarrow> ds_limit \<Rightarrow> InstancePairing" where
  "InstancePairing_init same_source_limit different_source_limit =
     \<lparr>ss_limit = same_source_limit, ds_limit = different_source_limit, pairing = None\<rparr>"

text \<open>
  \<^verbatim>\<open>np.array(np.meshgrid(np.arange(n), np.arange(n))).T.reshape(-1, 2)\<close>: row \<open>i * n + j\<close>
  is \<open>(i, j)\<close>.
\<close>

definition meshgrid_pairs :: "nat \<Rightarrow> (nat \<times> nat) list" where
  "meshgrid_pairs n = List.product [0..<n] [0..<n]"

text \<open>\<^verbatim>\<open>np.where(keep)[0]\<close>: the positions that hold True, ascending.\<close>

definition np_where :: "bool list \<Rightarrow> nat list" where
  "np_where keep = filter (\<lambda>r. keep ! r) [0..<length keep]"

text \<open>
  \<^verbatim>\<open>y[pairing[:, 0]] == y[pairing[:, 1]]\<close>; NumPy raises IndexError when an index is not
  below the length of \<open>y\<close>.
\<close>

definition same_source :: "'l list \<Rightarrow> (nat \<times> nat) list \<Rightarrow> error + bool list" where
  "same_source y prs =
     (if list_ex (\<lambda>(i, j). length y \<le> i \<or> length y \<le> j) prs then Inl IndexError
      else Inr (map (\<lambda>(i, j). y ! i = y ! j) prs))"

text \<open>The two candidate sets, before any limit: rows of the pair table.\<close>

definition rows_same_candidates :: "(nat \<times> nat) list \<Rightarrow> bool list \<Rightarrow> nat list" where
  "rows_same_candidates prs same = np_where (map2 (\<lambda>(i, j) s. i < j \<and> s) prs same)"

definition rows_diff_candidates :: "(nat \<times> nat) list \<Rightarrow> bool list \<Rightarrow> nat list" where
  "rows_diff_candidates prs same = np_where (map2 (\<lambda>(i, j) s. i < j \<and> \<not> s) prs same)"

text \<open>
  The result of \<open>transform\<close>: the object with its \<open>pairing\<close> attribute set, the state
  of the random source afterwards, the paired tensor of shape \<open>(m, f, 2)\<close> and the paired
  labels (\<^verbatim>\<open>np.ones\<close> and \<^verbatim>\<open>np.zeros\<close> give floating-point 1 and 0).
\<close>

record 'a paired =
  self_after :: InstancePairing
  rng_after :: rng
  X_paired :: "'a list list list"
  y_paired :: "real list"

definition transform ::
    "InstancePairing \<Rightarrow> rng \<Rightarrow> 'a list list \<Rightarrow> 'l list \<Rightarrow> error + 'a paired" where
  "transform self g X y =
     (let prs = meshgrid_pairs (length X) in
      case same_source y prs of
        Inl e \<Rightarrow> Inl e
      | Inr same \<Rightarrow>
          let rows_same = rows_same_candidates prs same in
          (case (case ss_limit self of
                   None \<Rightarrow> Inr (rows_same, g)
                 | Some limit \<Rightarrow>
                     if limit < int (length rows_same) then np_random_choice g rows_same limit
                     else Inr (rows_same, g)) of
             Inl e \<Rightarrow> Inl e
           | Inr (rows_same, g) \<Rightarrow>
               let rows_diff = rows_diff_candidates prs same;
                   limit = (case ds_limit self of
                              DS_None \<Rightarrow> int (length rows_diff)
                            | DS_Balanced \<Rightarrow> int (length rows_same)
                            | DS_Int k \<Rightarrow> k)
               in (case (if limit < int (length rows_diff) then np_random_choice g rows_diff limit
                         else Inr (rows_diff, g)) of
                     Inl e \<Rightarrow> Inl e
                   | Inr (rows_diff, g) \<Rightarrow>
                       let prs = map ((!) prs) rows_same @ map ((!) prs) rows_diff
                       in Inr \<lparr>self_after = self\<lparr>pairing := Some prs\<rparr>,
                               rng_after = g,
                               X_paired = map (\<lambda>(i, j). map2 (\<lambda>a b. [a, b]) (X ! i) (X ! j)) prs,
                               y_paired = replicate (length rows_same) 1 @
                                          replicate (length rows_diff) 0\<rparr>)))"

section \<open>Properties of the label-format converter\<close>

subsection \<open>Library facts\<close>

lemma sorted_distinct_adj_distinct:
  "sorted xs \<Longrightarrow> distinct_adj xs \<Longrightarrow> distinct (xs::'a::linorder list)"
proof (induction xs)
  case Nil then show ?case by simp
next
  case (Cons x xs)
  show ?case
  proof (cases xs)
    case Nil then show ?thesis by simp
  next
    case (Cons z zs)
    with Cons.prems have "x \<noteq> z" "x \<le> z" "\<forall>w\<in>set xs. z \<le> w" by auto
    then have "x \<notin> set xs" by force
    with Cons.prems Cons.IH local.Cons show ?thesis by auto
  qed
qed

lemma np_unique_props: "sorted (np_unique y) \<and> distinct (np_unique y) \<and> set (np_unique y) = set y"
  unfolding np_unique_def
  by (simp add: sorted_remdups_adj sorted_distinct_adj_distinct distinct_adj_remdups_adj)

lemma np_unique_sorted_list: "np_unique y = sorted_list_of_set (set y)"
  using np_unique_props [of y] sorted_list_of_set.idem_if_sorted_distinct [of "np_unique y"]
  by simp

lemma np_unique_length: "length (np_unique y) = card (set y)"
  by (simp add: np_unique_sorted_list)

lemma np_unique_two: "u0 < u1 \<Longrightarrow> set y = {u0, u1} \<Longrightarrow> np_unique y = [u0, u1]"
  by (auto simp: np_unique_sorted_list)

lemma nth_concat_offset:
  "g < length xss \<Longrightarrow> r < length (xss ! g) \<Longrightarrow>
   concat xss ! (sum_list (map length (take g xss)) + r) = xss ! g ! r"
proof (induction xss arbitrary: g)
  case Nil then show ?case by simp
next
  case (Cons xs xss)
  show ?case
  proof (cases g)
    case 0 with Cons.prems show ?thesis by (simp add: nth_append)
  next
    case (Suc g')
    with Cons.prems have "concat xss ! (sum_list (map length (take g' xss)) + r) = xss ! g' ! r"
      by (intro Cons.IH) simp_all
    with Suc show ?thesis by (simp add: nth_append add.assoc)
  qed
qed

lemma boolean_index_nths:
  "length X = length y \<Longrightarrow> boolean_index X (map P y) = nths X {i. P (y ! i)}"
proof (induction X y arbitrary: P rule: list_induct2)
  case Nil then show ?case by (simp add: boolean_index_def)
next
  case (Cons x xs l ls)
  then show ?case by (simp add: boolean_index_def nths_Cons)
qed

lemma boolean_index_all: "boolean_index A (replicate (length A) True) = A"
  by (induction A) (simp_all add: boolean_index_def)

lemma boolean_index_none: "boolean_index A (replicate (length A) False) = []"
  by (induction A) (simp_all add: boolean_index_def)

lemma boolean_index_append:
  "length A = length ka \<Longrightarrow>
   boolean_index (A @ B) (ka @ kb) = boolean_index A ka @ boolean_index B kb"
  by (simp add: boolean_index_def)

lemma collect_all_ok: "collect (map Inr vs) = Inr vs"
  by (induction vs) simp_all

lemma collect_error:
  "i < length rs \<Longrightarrow> rs ! i = Inl e \<Longrightarrow> \<forall>r\<in>set rs. \<forall>e'. r = Inl e' \<longrightarrow> e' = e \<Longrightarrow>
   collect rs = Inl e"
proof (induction rs arbitrary: i)
  case Nil then show ?case by simp
next
  case (Cons r rs)
  show ?case
  proof (cases i)
    case 0 with Cons.prems show ?thesis by simp
  next
    case (Suc j)
    with Cons.prems have "collect rs = Inl e" by (intro Cons.IH [of j]) auto
    with Cons.prems show ?thesis by (auto split: sum.splits)
  qed
qed

lemma int8_blocks_ok:
  assumes "c = Value_Based \<or> length Xn \<le> 128"
  shows "map (\<lambda>(i, Xi). int8_ones_times c (length Xi) i) (enumerate 0 Xn)
         = map Inr (map (\<lambda>(i, Xi). replicate (length Xi) (int i)) (enumerate 0 Xn))"
proof -
  have "\<forall>p\<in>set (enumerate 0 Xn). fst p < length Xn"
    by (auto simp: in_set_enumerate_eq)
  with assms show ?thesis
    by (auto simp: int8_ones_times_def)
qed

lemma Xn_to_Xy_ok:
  assumes "Xn \<noteq> []" and "c = Value_Based \<or> length Xn \<le> 128"
  shows "Xn_to_Xy c Xn =
    Inr (concat Xn, concat (map (\<lambda>(i, Xi). replicate (length Xi) (int i)) (enumerate 0 Xn)))"
proof -
  have "collect (map (\<lambda>(i, Xi). int8_ones_times c (length Xi) i) (enumerate 0 Xn))
        = Inr (map (\<lambda>(i, Xi). replicate (length Xi) (int i)) (enumerate 0 Xn))"
    by (simp only: int8_blocks_ok [OF assms(2)] collect_all_ok)
  moreover have "enumerate 0 Xn \<noteq> []"
    using assms(1) by (cases Xn) simp_all
  ultimately show ?thesis
    using assms(1) by (simp add: Xn_to_Xy_def np_concatenate_def)
qed

lemma Xn_to_Xy_overflow:
  assumes "128 < length Xn"
  shows "Xn_to_Xy Weak_Scalar Xn = Inl OverflowError"
proof -
  let ?rs = "map (\<lambda>(i, Xi). int8_ones_times Weak_Scalar (length Xi) i) (enumerate 0 Xn)"
  have "?rs ! 128 = Inl OverflowError"
    using assms by (simp add: nth_enumerate_eq int8_ones_times_def)
  moreover have "\<forall>r\<in>set ?rs. \<forall>e'. r = Inl e' \<longrightarrow> e' = OverflowError"
    by (auto simp: int8_ones_times_def split: if_splits)
  ultimately have "collect ?rs = Inl OverflowError"
    using assms by (intro collect_error [of 128]) simp_all
  with assms show ?thesis
    by (auto simp: Xn_to_Xy_def np_concatenate_def)
qed

subsection \<open>Group labels\<close>

text \<open>
  Claim C2, as amended. For at least one group and, under the weak-scalar casting rule, at
  most 128 groups, \<open>Xn_to_Xy\<close> returns the concatenated rows and one label per row; the
  row at position \<open>r\<close> of group \<open>g\<close> lands behind all rows of the groups before it and
  its label is the integer \<open>g\<close>. Under value-based casting there is no upper limit.
\<close>

theorem Xn_to_Xy_group_index:
  assumes "Xn \<noteq> []" and "c = Value_Based \<or> length Xn \<le> 128"
  shows "\<exists>X y. Xn_to_Xy c Xn = Inr (X, y) \<and> X = concat Xn \<and> length y = length X \<and>
    (\<forall>g<length Xn. \<forall>r<length (Xn ! g).
       X ! (sum_list (map length (take g Xn)) + r) = Xn ! g ! r \<and>
       y ! (sum_list (map length (take g Xn)) + r) = int g)"
proof -
  let ?blocks = "map (\<lambda>(i, Xi). replicate (length Xi) (int i)) (enumerate 0 Xn)"
  have len: "map length ?blocks = map length Xn"
    by (simp add: list_eq_iff_nth_eq nth_enumerate_eq)
  have "length (concat ?blocks) = length (concat Xn)"
    by (simp only: length_concat len)
  moreover have "concat ?blocks ! (sum_list (map length (take g Xn)) + r) = int g"
    if "g < length Xn" "r < length (Xn ! g)" for g r
  proof -
    have "sum_list (map length (take g Xn)) = sum_list (map length (take g ?blocks))"
      by (simp only: take_map [symmetric] len)
    moreover have "g < length ?blocks" "r < length (?blocks ! g)"
      using that by (simp_all add: nth_enumerate_eq)
    ultimately have "concat ?blocks ! (sum_list (map length (take g Xn)) + r) = ?blocks ! g ! r"
      by (simp only: nth_concat_offset)
    with that show ?thesis by (simp add: nth_enumerate_eq)
  qed
  ultimately show ?thesis
    using Xn_to_Xy_ok [OF assms] by (simp add: nth_concat_offset)
qed

theorem Xn_to_Xy_group_index_witness:
  "Xn_to_Xy Weak_Scalar [[[1::int, 2], [3, 4]], [[10, 20]]] = Inr ([[1, 2], [3, 4], [10, 20]], [0, 0, 1])"
  using Xn_to_Xy_group_index [of "[[[1::int, 2], [3, 4]], [[10, 20]]]" Weak_Scalar]
  by (auto simp: Xn_to_Xy_def np_concatenate_def int8_ones_times_def enumerate_eq_zip)

text \<open>
  Claim C2 as stated (any number of groups, no limit) fails twice: with no group at all
  \<^verbatim>\<open>np.concatenate\<close> raises ValueError, and with 129 groups under the weak-scalar rule
  the index 128 does not fit int8 and NumPy raises OverflowError.
\<close>

theorem Xn_to_Xy_group_limit_counterexample:
  "Xn_to_Xy Weak_Scalar ([] :: int list list list) = Inl ValueError \<and>
   Xn_to_Xy Weak_Scalar (replicate 129 [[0::int]]) = Inl OverflowError"
proof
  show "Xn_to_Xy Weak_Scalar ([] :: int list list list) = Inl ValueError"
    by (simp add: Xn_to_Xy_def np_concatenate_def)
  show "Xn_to_Xy Weak_Scalar (replicate 129 [[0::int]]) = Inl OverflowError"
    by (rule Xn_to_Xy_overflow) simp
qed

subsection \<open>Failures of \<open>Xy_to_Xn\<close>\<close>

text \<open>
  Claim C3, as amended. \<open>Xy_to_Xn\<close> fails with an AssertionError when \<open>X\<close> and \<open>y\<close>
  differ in their number of rows, fails with an AssertionError again when \<open>y\<close> does not
  have exactly two distinct values, and returns a result otherwise.
\<close>

theorem Xy_to_Xn_assertions:
  "(length X \<noteq> length y \<longrightarrow> Xy_to_Xn X y = Inl AssertionError) \<and>
   (length X = length y \<and> card (set y) \<noteq> 2 \<longrightarrow> Xy_to_Xn X y = Inl AssertionError) \<and>
   (length X = length y \<and> card (set y) = 2 \<longrightarrow> (\<exists>Xn. Xy_to_Xn X y = Inr Xn))"
  by (simp add: Xy_to_Xn_def Let_def np_unique_length)

theorem Xy_to_Xn_assertions_witness:
  "Xy_to_Xn [[1::int], [2]] [0::int] = Inl AssertionError \<and>
   Xy_to_Xn [[1::int], [2]] [0::int, 0] = Inl AssertionError \<and>
   (\<exists>Xn. Xy_to_Xn [[1::int], [2]] [0::int, 1] = Inr Xn)"
  using Xy_to_Xn_assertions [of "[[1::int], [2]]" "[0::int]"]
    Xy_to_Xn_assertions [of "[[1::int], [2]]" "[0::int, 0]"]
    Xy_to_Xn_assertions [of "[[1::int], [2]]" "[0::int, 1]"]
  by simp

text \<open>
  Claim C3 as stated asks for two distinct kinds of error. The row-count failure and the
  label-count failure are the same error value.
\<close>

theorem Xy_to_Xn_same_error_counterexample:
  "Xy_to_Xn [[1::int], [2]] [0::int] = Inl AssertionError \<and>
   Xy_to_Xn [[1::int], [2]] [0::int, 0] = Inl AssertionError"
  by (simp add: Xy_to_Xn_def np_unique_def)

subsection \<open>Row order within a group\<close>

text \<open>
  Claim C10. For equally long \<open>X\<close> and \<open>y\<close> with the two label values \<open>u0 < u1\<close>,
  \<open>Xy_to_Xn\<close> returns two matrices, for \<open>u0\<close> and then for \<open>u1\<close>; each is the
  sublist of \<open>X\<close> at the positions bearing that label, in the order of \<open>X\<close>.
\<close>

theorem Xy_to_Xn_keeps_row_order:
  assumes "length X = length y" and "set y = {u0, u1}" and "u0 < u1"
  shows "Xy_to_Xn X y = Inr [nths X {i. y ! i = u0}, nths X {i. y ! i = u1}]"
  using assms by (simp add: Xy_to_Xn_def Let_def np_unique_two boolean_index_nths)

theorem Xy_to_Xn_keeps_row_order_witness:
  "Xy_to_Xn [[1::int], [2], [3]] [5::int, 3, 5] = Inr [[[2]], [[1], [3]]]"
proof -
  have h: "set [5::int, 3, 5] = {3, 5}" by auto
  show ?thesis
    using Xy_to_Xn_keeps_row_order [of "[[1::int], [2], [3]]" "[5::int, 3, 5]" 3 5, OF _ h]
    by (simp add: nths_Cons)
qed

subsection \<open>Round trip\<close>

text \<open>
  Claim C6, as amended. For two groups that both have at least one row, \<open>Xn_to_Xy\<close>
  followed by \<open>Xy_to_Xn\<close> returns two matrices with the rows of the first and of the
  second group, as multisets.
\<close>

theorem roundtrip_two_groups:
  assumes "A \<noteq> []" and "B \<noteq> []"
  shows "\<exists>X y A' B'. Xn_to_Xy c [A, B] = Inr (X, y) \<and> Xy_to_Xn X y = Inr [A', B'] \<and>
           mset A' = mset A \<and> mset B' = mset B"
proof -
  let ?y = "replicate (length A) (0::int) @ replicate (length B) 1"
  have flat: "Xn_to_Xy c [A, B] = Inr (A @ B, ?y)"
    by (simp add: Xn_to_Xy_def np_concatenate_def int8_ones_times_def enumerate_eq_zip)
  have "set ?y = {0, 1}" using assms by auto
  then have uniq: "np_unique ?y = [0, 1]" by (intro np_unique_two) simp_all
  have "Xy_to_Xn (A @ B) ?y = Inr [A, B]"
    by (simp add: Xy_to_Xn_def uniq boolean_index_append boolean_index_all boolean_index_none)
  with flat show ?thesis by simp
qed

theorem roundtrip_two_groups_witness:
  "\<exists>X y A' B'. Xn_to_Xy Weak_Scalar [[[1::int, 2], [3, 4]], [[10, 20]]] = Inr (X, y) \<and>
      Xy_to_Xn X y = Inr [A', B'] \<and> mset A' = mset [[1, 2], [3, 4]] \<and> mset B' = mset [[10, 20]]"
  using roundtrip_two_groups [of "[[1::int, 2], [3, 4]]" "[[10, 20]]" Weak_Scalar] by simp

text \<open>
  Claim C6 as stated (every pair of groups) fails when a group has no row: only one label
  value is left and \<open>Xy_to_Xn\<close> fails its assertion.
\<close>

theorem roundtrip_empty_group_counterexample:
  "Xn_to_Xy Weak_Scalar [[], [[10::int, 20]]] = Inr ([[10, 20]], [1]) \<and>
   Xy_to_Xn [[10::int, 20]] [1::int] = Inl AssertionError"
  by (simp add: Xn_to_Xy_def np_concatenate_def int8_ones_times_def enumerate_eq_zip
      Xy_to_Xn_def np_unique_def)

section \<open>Properties of AbsDiffTransformer\<close>




section \<open>Properties of InstancePairing\<close>

subsection \<open>Sampling without replacement\<close>

lemma remove_nth_mset:
  "i < length a \<Longrightarrow> mset a = add_mset (a ! i) (mset (take i a @ drop (Suc i) a))"
proof -
  assume "i < length a"
  then have "a = take i a @ a ! i # drop (Suc i) a" by (rule id_take_nth_drop)
  then have "mset a = mset (take i a @ a ! i # drop (Suc i) a)" by simp
  then show ?thesis by simp
qed

lemma draw_without_replacement_mset:
  "mset (fst (draw_without_replacement g a k)) \<subseteq># mset a"
proof (induction k arbitrary: g a)
  case 0 then show ?case by simp
next
  case (Suc k)
  show ?case
  proof (cases "a = []")
    case True then show ?thesis by simp
  next
    case False
    obtain r g' where d: "next_draw g = (r, g')" by (cases "next_draw g")
    let ?i = "r mod length a"
    let ?a' = "take ?i a @ drop (Suc ?i) a"
    obtain rest g'' where rec: "draw_without_replacement g' ?a' k = (rest, g'')"
      by (cases "draw_without_replacement g' ?a' k")
    have i: "?i < length a" using False by simp
    have "mset rest \<subseteq># mset ?a'" using Suc.IH [of g' ?a'] rec by simp
    then have "add_mset (a ! ?i) (mset rest) \<subseteq># mset a"
      using remove_nth_mset [OF i] by simp
    with False d rec show ?thesis by (simp add: Let_def)
  qed
qed

lemma draw_without_replacement_length:
  "k \<le> length a \<Longrightarrow> length (fst (draw_without_replacement g a k)) = k"
proof (induction k arbitrary: g a)
  case 0 then show ?case by simp
next
  case (Suc k)
  then have ne: "a \<noteq> []" by auto
  obtain r g' where d: "next_draw g = (r, g')" by (cases "next_draw g")
  let ?i = "r mod length a"
  let ?a' = "take ?i a @ drop (Suc ?i) a"
  obtain rest g'' where rec: "draw_without_replacement g' ?a' k = (rest, g'')"
    by (cases "draw_without_replacement g' ?a' k")
  have i: "?i < length a" using ne by simp
  then have "k \<le> length ?a'" using Suc.prems by simp
  then have "length rest = k" using Suc.IH [of ?a' g'] rec by simp
  with ne d rec show ?case by (simp add: Let_def)
qed

text \<open>
  The model of the random source leaves no sample out: every arrangement of elements of
  \<open>a\<close>, each taken at most as often as it occurs, is drawn from some state.
\<close>

lemma draw_without_replacement_reaches:
  "mset ys \<subseteq># mset a \<Longrightarrow> \<exists>g. fst (draw_without_replacement g a (length ys)) = ys"
proof (induction ys arbitrary: a)
  case Nil then show ?case by simp
next
  case (Cons y ys)
  then have "y \<in> set a" by (metis list.set_intros(1) mset_subset_eqD set_mset_mset)
  then obtain i where i: "i < length a" "a ! i = y" by (auto simp: in_set_conv_nth)
  let ?a' = "take i a @ drop (Suc i) a"
  have "mset a = add_mset y (mset ?a')" using remove_nth_mset [OF i(1)] i(2) by simp
  with Cons.prems have "mset ys \<subseteq># mset ?a'" by simp
  from Cons.IH [OF this] obtain g where g: "fst (draw_without_replacement g ?a' (length ys)) = ys"
    by blast
  obtain rest g' where rec: "draw_without_replacement g ?a' (length ys) = (rest, g')"
    by (cases "draw_without_replacement g ?a' (length ys)")
  with g have "rest = ys" by simp
  moreover have "a \<noteq> []" using i(1) by auto
  ultimately have "fst (draw_without_replacement (i # g) a (length (y # ys))) = y # ys"
    using i rec by (simp add: Let_def)
  then show ?case by blast
qed

lemma np_random_choice_Inr:
  assumes "np_random_choice g a k = Inr (xs, g')"
  shows "0 \<le> k \<and> k \<le> int (length a) \<and> length xs = nat k \<and> mset xs \<subseteq># mset a"
proof -
  from assms have k: "0 \<le> k" "k \<le> int (length a)"
    and xs: "xs = fst (draw_without_replacement g a (nat k))"
    by (auto simp: np_random_choice_def split: if_splits)
  from k have "nat k \<le> length a" by simp
  with xs k show ?thesis
    by (simp add: draw_without_replacement_length draw_without_replacement_mset)
qed

lemma np_random_choice_ok:
  "0 \<le> k \<Longrightarrow> k \<le> int (length a) \<Longrightarrow> \<exists>xs g'. np_random_choice g a k = Inr (xs, g')"
  by (cases "draw_without_replacement g a (nat k)") (simp add: np_random_choice_def)

lemma limited_rows_Inr:
  assumes "(if l < int (length rows) then np_random_choice g rows l else Inr (rows, g)) = Inr (rs, g')"
  shows "mset rs \<subseteq># mset rows \<and>
         length rs = (if l < int (length rows) then nat l else length rows) \<and>
         (l < int (length rows) \<longrightarrow> 0 \<le> l)"
proof (cases "l < int (length rows)")
  case True
  with assms have "np_random_choice g rows l = Inr (rs, g')" by simp
  from np_random_choice_Inr [OF this] True show ?thesis by simp
next
  case False
  with assms show ?thesis by simp
qed

lemma limited_rows_ok:
  assumes "l < int (length rows) \<longrightarrow> 0 \<le> l"
  shows "\<exists>rs g'. (if l < int (length rows) then np_random_choice g rows l else Inr (rows, g)) = Inr (rs, g')"
proof (cases "l < int (length rows)")
  case True
  with assms np_random_choice_ok [of l rows g] show ?thesis by simp
next
  case False then show ?thesis by simp
qed

lemma submset_distinct:
  assumes "mset xs \<subseteq># mset ys" and "distinct ys"
  shows "distinct xs \<and> set xs \<subseteq> set ys"
proof
  have le: "count (mset xs) a \<le> count (mset ys) a" for a
    using assms(1) by (rule mset_subset_eq_count)
  have one: "count (mset ys) a \<le> 1" for a
    using assms(2) by (simp add: distinct_count_atmost_1)
  have "count (mset xs) a = (if a \<in> set xs then 1 else 0)" for a
  proof (cases "a \<in> set xs")
    case True
    then have "0 < count (mset xs) a" by (simp only: count_greater_zero_iff set_mset_mset)
    with le [of a] one [of a] True show ?thesis by (simp del: count_greater_zero_iff)
  next
    case False then show ?thesis by (simp add: count_mset_0_iff)
  qed
  then show "distinct xs" by (simp add: distinct_count_atmost_1)
  show "set xs \<subseteq> set ys" using set_mset_mono [OF assms(1)] by simp
qed

subsection \<open>The pair table and the candidate rows\<close>

lemma same_source_meshgrid:
  "same_source y (meshgrid_pairs n) =
     (if length y < n then Inl IndexError
      else Inr (map (\<lambda>(i, j). y ! i = y ! j) (meshgrid_pairs n)))"
proof -
  have "list_ex (\<lambda>(i, j). length y \<le> i \<or> length y \<le> j) (meshgrid_pairs n) \<longleftrightarrow> length y < n"
  proof
    assume "list_ex (\<lambda>(i, j). length y \<le> i \<or> length y \<le> j) (meshgrid_pairs n)"
    then show "length y < n" by (auto simp: list_ex_iff meshgrid_pairs_def)
  next
    assume "length y < n"
    then have "(length y, length y) \<in> set (meshgrid_pairs n)" by (simp add: meshgrid_pairs_def)
    then show "list_ex (\<lambda>(i, j). length y \<le> i \<or> length y \<le> j) (meshgrid_pairs n)"
      unfolding list_ex_iff by (intro bexI [of _ "(length y, length y)"]) simp_all
  qed
  then show ?thesis by (simp add: same_source_def)
qed

lemma nth_filter_rows: "map ((!) xs) (filter (\<lambda>r. P (xs ! r)) [0..<length xs]) = filter P xs"
proof -
  have "filter P xs = filter P (map ((!) xs) [0..<length xs])" by (simp add: map_nth)
  also have "\<dots> = map ((!) xs) (filter (P \<circ> (!) xs) [0..<length xs])" by (simp only: filter_map)
  finally show ?thesis by (simp add: comp_def)
qed

lemma np_where_map2:
  "np_where (map2 f prs (map h prs)) = filter (\<lambda>r. f (prs ! r) (h (prs ! r))) [0..<length prs]"
  by (auto simp: np_where_def intro: filter_cong)

lemma rows_same_pairs:
  "map ((!) prs) (rows_same_candidates prs (map (\<lambda>(i, j). y ! i = y ! j) prs))
   = filter (\<lambda>(i, j). i < j \<and> y ! i = y ! j) prs"
  unfolding rows_same_candidates_def np_where_map2
  using nth_filter_rows [of prs "\<lambda>(i, j). i < j \<and> y ! i = y ! j"]
  by (simp add: case_prod_unfold)

lemma rows_diff_pairs:
  "map ((!) prs) (rows_diff_candidates prs (map (\<lambda>(i, j). y ! i = y ! j) prs))
   = filter (\<lambda>(i, j). i < j \<and> y ! i \<noteq> y ! j) prs"
  unfolding rows_diff_candidates_def np_where_map2
  using nth_filter_rows [of prs "\<lambda>(i, j). i < j \<and> y ! i \<noteq> y ! j"]
  by (simp add: case_prod_unfold)

lemma distinct_meshgrid_pairs: "distinct (meshgrid_pairs n)"
  by (simp add: meshgrid_pairs_def distinct_product)

lemma set_meshgrid_pairs: "set (meshgrid_pairs n) = {(i, j). i < n \<and> j < n}"
  by (auto simp: meshgrid_pairs_def)

lemma chosen_pairs:
  assumes "mset rs \<subseteq># mset cand" and "map ((!) prs) cand = filter P prs" and "distinct prs"
  shows "distinct (map ((!) prs) rs) \<and> set (map ((!) prs) rs) \<subseteq> {p \<in> set prs. P p}"
proof -
  have "mset (map ((!) prs) rs) \<subseteq># mset (map ((!) prs) cand)"
    using assms(1) by (simp add: image_mset_subseteq_mono)
  then have "mset (map ((!) prs) rs) \<subseteq># mset (filter P prs)"
    by (simp only: assms(2))
  moreover have "distinct (filter P prs)" using assms(3) by simp
  ultimately show ?thesis using submset_distinct [of "map ((!) prs) rs" "filter P prs"] by auto
qed


subsection \<open>What \<open>transform\<close> returns\<close>

text \<open>
  A successful run has read \<open>y\<close> within its bounds, kept some of the same-source rows and
  some of the different-source rows, and labelled them 1 and 0. How many rows it keeps does
  not depend on the random source.
\<close>

lemma transform_Inr:
  assumes "transform self g X y = Inr out"
  defines "prs \<equiv> meshgrid_pairs (length X)"
  defines "same \<equiv> map (\<lambda>(i, j). y ! i = y ! j) prs"
  shows "\<exists>rs rd. length X \<le> length y \<and>
     mset rs \<subseteq># mset (rows_same_candidates prs same) \<and>
     mset rd \<subseteq># mset (rows_diff_candidates prs same) \<and>
     length rs = (case ss_limit self of
                    None \<Rightarrow> length (rows_same_candidates prs same)
                  | Some l \<Rightarrow> if l < int (length (rows_same_candidates prs same)) then nat l
                              else length (rows_same_candidates prs same)) \<and>
     length rd = (case ds_limit self of
                    DS_None \<Rightarrow> length (rows_diff_candidates prs same)
                  | DS_Balanced \<Rightarrow> min (length rs) (length (rows_diff_candidates prs same))
                  | DS_Int l \<Rightarrow> if l < int (length (rows_diff_candidates prs same)) then nat l
                                else length (rows_diff_candidates prs same)) \<and>
     pairing (self_after out) = Some (map ((!) prs) rs @ map ((!) prs) rd) \<and>
     X_paired out = map (\<lambda>(i, j). map2 (\<lambda>a b. [a, b]) (X ! i) (X ! j))
                        (map ((!) prs) rs @ map ((!) prs) rd) \<and>
     y_paired out = replicate (length rs) 1 @ replicate (length rd) 0"
  and "y_paired out =
    (let cs = rows_same_candidates prs same;
         cd = rows_diff_candidates prs same;
         m = (case ss_limit self of
                None \<Rightarrow> length cs
              | Some l \<Rightarrow> if l < int (length cs) then nat l else length cs);
         n = (case ds_limit self of
                DS_None \<Rightarrow> length cd
              | DS_Balanced \<Rightarrow> min m (length cd)
              | DS_Int l \<Rightarrow> if l < int (length cd) then nat l else length cd)
     in replicate m 1 @ replicate n 0)"
proof -
  let ?prs = "meshgrid_pairs (length X)"
  let ?same = "map (\<lambda>(i, j). y ! i = y ! j) ?prs"
  let ?cs = "rows_same_candidates ?prs ?same"
  let ?cd = "rows_diff_candidates ?prs ?same"
  have len: "length X \<le> length y" and src: "same_source y ?prs = Inr ?same"
    using assms(1)
    by (auto simp: transform_def same_source_meshgrid Let_def split: if_splits)
  let ?step1 = "case ss_limit self of
                   None \<Rightarrow> Inr (?cs, g)
                 | Some limit \<Rightarrow>
                     if limit < int (length ?cs) then np_random_choice g ?cs limit
                     else Inr (?cs, g)"
  obtain rs g1 where s1: "?step1 = Inr (rs, g1)"
    using assms(1) src
    by (cases ?step1) (auto simp: transform_def Let_def)
  let ?lim = "case ds_limit self of
                 DS_None \<Rightarrow> int (length ?cd)
               | DS_Balanced \<Rightarrow> int (length rs)
               | DS_Int k \<Rightarrow> k"
  let ?step2 = "if ?lim < int (length ?cd) then np_random_choice g1 ?cd ?lim else Inr (?cd, g1)"
  obtain rd g2 where s2: "?step2 = Inr (rd, g2)"
    using assms(1) src s1
    by (cases ?step2) (auto simp: transform_def Let_def)
  have out: "out = \<lparr>self_after = self\<lparr>pairing := Some (map ((!) ?prs) rs @ map ((!) ?prs) rd)\<rparr>,
                     rng_after = g2,
                     X_paired = map (\<lambda>(i, j). map2 (\<lambda>a b. [a, b]) (X ! i) (X ! j))
                                    (map ((!) ?prs) rs @ map ((!) ?prs) rd),
                     y_paired = replicate (length rs) 1 @ replicate (length rd) 0\<rparr>"
    using assms(1) src s1 s2
    by (simp add: transform_def Let_def)
  have rs: "mset rs \<subseteq># mset ?cs \<and>
            length rs = (case ss_limit self of None \<Rightarrow> length ?cs
                         | Some l \<Rightarrow> if l < int (length ?cs) then nat l else length ?cs)"
  proof (cases "ss_limit self")
    case None with s1 show ?thesis by simp
  next
    case (Some l)
    with s1 limited_rows_Inr [of l ?cs g rs g1] show ?thesis by simp
  qed
  have rd: "mset rd \<subseteq># mset ?cd \<and>
            length rd = (if ?lim < int (length ?cd) then nat ?lim else length ?cd)"
    using limited_rows_Inr [OF s2] by simp
  have "length rd = (case ds_limit self of
                    DS_None \<Rightarrow> length ?cd
                  | DS_Balanced \<Rightarrow> min (length rs) (length ?cd)
                  | DS_Int l \<Rightarrow> if l < int (length ?cd) then nat l else length ?cd)"
    using rd by (cases "ds_limit self") auto
  then have rd': "length rd = (case ds_limit self of
                    DS_None \<Rightarrow> length ?cd
                  | DS_Balanced \<Rightarrow> min (length rs) (length ?cd)
                  | DS_Int l \<Rightarrow> if l < int (length ?cd) then nat l else length ?cd)" .
  from len rs rd rd' out show "\<exists>rs rd. length X \<le> length y \<and>
     mset rs \<subseteq># mset (rows_same_candidates prs same) \<and>
     mset rd \<subseteq># mset (rows_diff_candidates prs same) \<and>
     length rs = (case ss_limit self of
                    None \<Rightarrow> length (rows_same_candidates prs same)
                  | Some l \<Rightarrow> if l < int (length (rows_same_candidates prs same)) then nat l
                              else length (rows_same_candidates prs same)) \<and>
     length rd = (case ds_limit self of
                    DS_None \<Rightarrow> length (rows_diff_candidates prs same)
                  | DS_Balanced \<Rightarrow> min (length rs) (length (rows_diff_candidates prs same))
                  | DS_Int l \<Rightarrow> if l < int (length (rows_diff_candidates prs same)) then nat l
                                else length (rows_diff_candidates prs same)) \<and>
     pairing (self_after out) = Some (map ((!) prs) rs @ map ((!) prs) rd) \<and>
     X_paired out = map (\<lambda>(i, j). map2 (\<lambda>a b. [a, b]) (X ! i) (X ! j))
                        (map ((!) prs) rs @ map ((!) prs) rd) \<and>
     y_paired out = replicate (length rs) 1 @ replicate (length rd) 0"
    unfolding prs_def same_def by (intro exI [of _ rs] exI [of _ rd]) simp
  have "y_paired out = replicate (length rs) 1 @ replicate (length rd) 0"
    by (simp add: out)
  also have "length rd = (case ds_limit self of
                    DS_None \<Rightarrow> length ?cd
                  | DS_Balanced \<Rightarrow> min (length rs) (length ?cd)
                  | DS_Int l \<Rightarrow> if l < int (length ?cd) then nat l else length ?cd)"
    by (rule rd')
  also have "length rs = (case ss_limit self of None \<Rightarrow> length ?cs
                         | Some l \<Rightarrow> if l < int (length ?cs) then nat l else length ?cs)"
    using rs by simp
  finally show "y_paired out =
    (let cs = rows_same_candidates prs same;
         cd = rows_diff_candidates prs same;
         m = (case ss_limit self of
                None \<Rightarrow> length cs
              | Some l \<Rightarrow> if l < int (length cs) then nat l else length cs);
         n = (case ds_limit self of
                DS_None \<Rightarrow> length cd
              | DS_Balanced \<Rightarrow> min m (length cd)
              | DS_Int l \<Rightarrow> if l < int (length cd) then nat l else length cd)
     in replicate m 1 @ replicate n 0)"
    unfolding prs_def same_def Let_def .
qed

lemma transform_ok:
  assumes "length X \<le> length y"
    and "\<forall>l. ss_limit self = Some l \<longrightarrow> 0 \<le> l"
    and "\<forall>l. ds_limit self = DS_Int l \<longrightarrow> 0 \<le> l"
  shows "\<exists>out. transform self g X y = Inr out"
proof -
  let ?prs = "meshgrid_pairs (length X)"
  let ?same = "map (\<lambda>(i, j). y ! i = y ! j) ?prs"
  let ?cs = "rows_same_candidates ?prs ?same"
  let ?cd = "rows_diff_candidates ?prs ?same"
  have src: "same_source y ?prs = Inr ?same"
    using assms(1) by (simp add: same_source_meshgrid)
  let ?step1 = "case ss_limit self of
                   None \<Rightarrow> Inr (?cs, g)
                 | Some limit \<Rightarrow>
                     if limit < int (length ?cs) then np_random_choice g ?cs limit
                     else Inr (?cs, g)"
  obtain rs g1 where s1: "?step1 = Inr (rs, g1)"
  proof (cases "ss_limit self")
    case None then show ?thesis using that by simp
  next
    case (Some l)
    with assms(2) have "l < int (length ?cs) \<longrightarrow> 0 \<le> l" by simp
    from limited_rows_ok [OF this, of g] Some show ?thesis using that by auto
  qed
  let ?lim = "case ds_limit self of
                 DS_None \<Rightarrow> int (length ?cd)
               | DS_Balanced \<Rightarrow> int (length rs)
               | DS_Int k \<Rightarrow> k"
  have "0 \<le> ?lim" using assms(3) by (cases "ds_limit self") simp_all
  then have "?lim < int (length ?cd) \<longrightarrow> 0 \<le> ?lim" by simp
  from limited_rows_ok [OF this, of g1] obtain rd g2 where
    s2: "(if ?lim < int (length ?cd) then np_random_choice g1 ?cd ?lim else Inr (?cd, g1)) = Inr (rd, g2)"
    by blast
  show ?thesis
    using src s1 s2 by (simp add: transform_def Let_def)
qed

lemma transform_unlimited:
  assumes "length X \<le> length y" and "ss_limit self = None" and "ds_limit self = DS_None"
  shows "\<exists>out. transform self g X y = Inr out \<and>
    pairing (self_after out) =
      Some (filter (\<lambda>(i, j). i < j \<and> y ! i = y ! j) (meshgrid_pairs (length X)) @
            filter (\<lambda>(i, j). i < j \<and> y ! i \<noteq> y ! j) (meshgrid_pairs (length X))) \<and>
    y_paired out =
      replicate (length (filter (\<lambda>(i, j). i < j \<and> y ! i = y ! j) (meshgrid_pairs (length X)))) 1 @
      replicate (length (filter (\<lambda>(i, j). i < j \<and> y ! i \<noteq> y ! j) (meshgrid_pairs (length X)))) 0"
proof -
  let ?prs = "meshgrid_pairs (length X)"
  let ?same = "map (\<lambda>(i, j). y ! i = y ! j) ?prs"
  have src: "same_source y ?prs = Inr ?same"
    using assms(1) by (simp add: same_source_meshgrid)
  have ls: "length (rows_same_candidates ?prs ?same)
            = length (filter (\<lambda>(i, j). i < j \<and> y ! i = y ! j) ?prs)"
    using arg_cong [OF rows_same_pairs [of ?prs y], of length] by simp
  have ld: "length (rows_diff_candidates ?prs ?same)
            = length (filter (\<lambda>(i, j). i < j \<and> y ! i \<noteq> y ! j) ?prs)"
    using arg_cong [OF rows_diff_pairs [of ?prs y], of length] by simp
  show ?thesis
    using src assms(2,3)
    by (simp add: transform_def Let_def rows_same_pairs rows_diff_pairs ls ld)
qed

lemma transform_pairs:
  assumes "transform self g X y = Inr out"
  shows "\<exists>ps pd. pairing (self_after out) = Some (ps @ pd) \<and>
           y_paired out = replicate (length ps) 1 @ replicate (length pd) 0 \<and>
           distinct ps \<and> distinct pd \<and>
           set ps \<subseteq> {(i, j). i < j \<and> j < length X \<and> y ! i = y ! j} \<and>
           set pd \<subseteq> {(i, j). i < j \<and> j < length X \<and> y ! i \<noteq> y ! j}"
proof -
  let ?prs = "meshgrid_pairs (length X)"
  let ?same = "map (\<lambda>(i, j). y ! i = y ! j) ?prs"
  from transform_Inr(1) [OF assms] obtain rs rd where
    rs: "mset rs \<subseteq># mset (rows_same_candidates ?prs ?same)" and
    rd: "mset rd \<subseteq># mset (rows_diff_candidates ?prs ?same)" and
    out: "pairing (self_after out) = Some (map ((!) ?prs) rs @ map ((!) ?prs) rd)"
         "y_paired out = replicate (length rs) 1 @ replicate (length rd) 0"
    by blast
  have "distinct (map ((!) ?prs) rs) \<and>
        set (map ((!) ?prs) rs) \<subseteq> {p \<in> set ?prs. case p of (i, j) \<Rightarrow> i < j \<and> y ! i = y ! j}"
    using rs rows_same_pairs distinct_meshgrid_pairs by (rule chosen_pairs)
  moreover have "distinct (map ((!) ?prs) rd) \<and>
        set (map ((!) ?prs) rd) \<subseteq> {p \<in> set ?prs. case p of (i, j) \<Rightarrow> i < j \<and> y ! i \<noteq> y ! j}"
    using rd rows_diff_pairs distinct_meshgrid_pairs by (rule chosen_pairs)
  ultimately show ?thesis
    using out
    by (intro exI [of _ "map ((!) ?prs) rs"] exI [of _ "map ((!) ?prs) rd"])
       (auto simp: set_meshgrid_pairs)
qed

lemma inj_on_unordered: "inj_on (\<lambda>(i, j). {i, j}) {(i, j). i < (j::nat)}"
  by (auto simp: inj_on_def doubleton_eq_iff)



subsection \<open>Counting the pairs of two classes\<close>







subsection \<open>Balanced mode\<close>




subsection \<open>Canonical pairs\<close>

text \<open>
  Claim C4. Whatever the input, the configuration and the random source, every row
  \<open>(i, j)\<close> of the pairing table of a result has \<open>i < j\<close> (and \<open>j\<close> is a row of
  \<open>X\<close>), and the unordered pairs \<open>{i, j}\<close> of the rows are pairwise different.
\<close>

theorem pairing_canonical:
  assumes "transform self g X y = Inr out"
  shows "\<exists>prs. pairing (self_after out) = Some prs \<and>
           (\<forall>(i, j)\<in>set prs. i < j \<and> j < length X) \<and>
           distinct (map (\<lambda>(i, j). {i, j}) prs)"
proof -
  from transform_pairs [OF assms] obtain ps pd where
    p: "pairing (self_after out) = Some (ps @ pd)" and
    d: "distinct ps" "distinct pd" and
    s: "set ps \<subseteq> {(i, j). i < j \<and> j < length X \<and> y ! i = y ! j}"
       "set pd \<subseteq> {(i, j). i < j \<and> j < length X \<and> y ! i \<noteq> y ! j}"
    by blast
  from s have disj: "set ps \<inter> set pd = {}" by auto
  from s have sub: "set (ps @ pd) \<subseteq> {(i, j). i < j}" by auto
  have "inj_on (\<lambda>(i, j). {i, j}) (set (ps @ pd))"
    using inj_on_unordered sub by (rule inj_on_subset)
  with d disj have "distinct (map (\<lambda>(i, j). {i, j}) (ps @ pd))"
    by (simp only: distinct_map distinct_append) 
  moreover from s have "\<forall>(i, j)\<in>set (ps @ pd). i < j \<and> j < length X" by auto
  ultimately show ?thesis using p by blast
qed

theorem pairing_canonical_witness:
  "transform (InstancePairing_init (Some 1) DS_Balanced) [1] [[1::int], [3], [10], [4]] [0::int, 0, 0, 1]
   = Inr \<lparr>self_after = \<lparr>ss_limit = Some 1, ds_limit = DS_Balanced, pairing = Some [(0, 2), (0, 3)]\<rparr>,
          rng_after = [], X_paired = [[[1, 10]], [[1, 4]]], y_paired = [1, 0]\<rparr> \<and>
   list_all (\<lambda>(i, j). i < j \<and> j < 4) [(0::nat, 2::nat), (0, 3)] \<and>
   distinct (map (\<lambda>(i, j). {i, j}) [(0::nat, 2::nat), (0, 3)])"
proof -
  have run: "transform (InstancePairing_init (Some 1) DS_Balanced) [1] [[1::int], [3], [10], [4]] [0::int, 0, 0, 1]
   = Inr \<lparr>self_after = \<lparr>ss_limit = Some 1, ds_limit = DS_Balanced, pairing = Some [(0, 2), (0, 3)]\<rparr>,
          rng_after = [], X_paired = [[[1, 10]], [[1, 4]]], y_paired = [1, 0]\<rparr>"
    by (simp add: transform_def same_source_def meshgrid_pairs_def rows_same_candidates_def
      rows_diff_candidates_def np_where_def np_random_choice_def InstancePairing_init_def upt_rec)
  from pairing_canonical [OF run] run show ?thesis by simp
qed

subsection \<open>All pairs of two classes\<close>



subsection \<open>More than two classes\<close>

text \<open>
  Claim C9. When \<open>y\<close> has more than two distinct values (one label per row of \<open>X\<close>, no
  negative limit), \<open>transform\<close> returns a result; every row \<open>(i, j)\<close> of its pairing
  table has \<open>i < j\<close> and is labelled 1 exactly when \<open>y ! i = y ! j\<close>, and 0 otherwise;
  with both limits unset the table holds every pair \<open>i < j\<close> of rows of \<open>X\<close>.
\<close>

theorem multi_class_pairing:
  assumes "2 < card (set y)" and "length y = length X"
    and "\<forall>l. ss_limit self = Some l \<longrightarrow> 0 \<le> l"
    and "\<forall>l. ds_limit self = DS_Int l \<longrightarrow> 0 \<le> l"
  shows "\<exists>out ps. transform self g X y = Inr out \<and> pairing (self_after out) = Some ps \<and>
           length (y_paired out) = length ps \<and>
           (\<forall>k<length ps. fst (ps ! k) < snd (ps ! k) \<and> snd (ps ! k) < length X \<and>
              y_paired out ! k = (if y ! fst (ps ! k) = y ! snd (ps ! k) then 1 else 0)) \<and>
           (ss_limit self = None \<and> ds_limit self = DS_None \<longrightarrow>
              set ps = {(i, j). i < j \<and> j < length X})"
proof -
  from assms(2-4) obtain out where run: "transform self g X y = Inr out"
    using transform_ok [of X y self g] by auto
  from transform_pairs [OF run] obtain ps pd where
    p: "pairing (self_after out) = Some (ps @ pd)" and
    lab: "y_paired out = replicate (length ps) 1 @ replicate (length pd) 0" and
    s: "set ps \<subseteq> {(i, j). i < j \<and> j < length X \<and> y ! i = y ! j}"
       "set pd \<subseteq> {(i, j). i < j \<and> j < length X \<and> y ! i \<noteq> y ! j}"
    by blast
  have row: "fst ((ps @ pd) ! k) < snd ((ps @ pd) ! k) \<and> snd ((ps @ pd) ! k) < length X \<and>
             y_paired out ! k = (if y ! fst ((ps @ pd) ! k) = y ! snd ((ps @ pd) ! k) then 1 else 0)"
    if k: "k < length (ps @ pd)" for k
  proof (cases "k < length ps")
    case True
    then have "ps ! k \<in> set ps" by simp
    with s(1) have "fst (ps ! k) < snd (ps ! k) \<and> snd (ps ! k) < length X \<and>
                    y ! fst (ps ! k) = y ! snd (ps ! k)"
      by (auto simp: case_prod_unfold)
    with True show ?thesis by (simp add: lab nth_append)
  next
    case False
    with k have "k - length ps < length pd" by simp
    then have "pd ! (k - length ps) \<in> set pd" by simp
    with s(2) have "fst (pd ! (k - length ps)) < snd (pd ! (k - length ps)) \<and>
                    snd (pd ! (k - length ps)) < length X \<and>
                    y ! fst (pd ! (k - length ps)) \<noteq> y ! snd (pd ! (k - length ps))"
      by (auto simp: case_prod_unfold)
    with False k show ?thesis by (simp add: lab nth_append)
  qed
  have full: "set (ps @ pd) = {(i, j). i < j \<and> j < length X}"
    if "ss_limit self = None \<and> ds_limit self = DS_None"
  proof -
    from transform_unlimited [of X y self g] that assms(2) run
    have "pairing (self_after out) =
      Some (filter (\<lambda>(i, j). i < j \<and> y ! i = y ! j) (meshgrid_pairs (length X)) @
            filter (\<lambda>(i, j). i < j \<and> y ! i \<noteq> y ! j) (meshgrid_pairs (length X)))"
      by auto
    with p have "ps @ pd =
            filter (\<lambda>(i, j). i < j \<and> y ! i = y ! j) (meshgrid_pairs (length X)) @
            filter (\<lambda>(i, j). i < j \<and> y ! i \<noteq> y ! j) (meshgrid_pairs (length X))"
      by simp
    then show ?thesis by (auto simp: set_meshgrid_pairs)
  qed
  have "length (y_paired out) = length (ps @ pd)" by (simp add: lab)
  with run p row full show ?thesis by blast
qed

theorem multi_class_pairing_witness:
  "\<exists>out. transform (InstancePairing_init None DS_None) [] [[1::int], [2], [3], [4]] [0::int, 1, 2, 0]
           = Inr out \<and>
     pairing (self_after out) = Some [(0, 3), (0, 1), (0, 2), (1, 2), (1, 3), (2, 3)] \<and>
     y_paired out = [1, 0, 0, 0, 0, 0]"
proof -
  have h1: "2 < card (set [0::int, 1, 2, 0])" by (simp only: List.card_set) simp
  have h2: "length [0::int, 1, 2, 0] = length [[1::int], [2], [3], [4]]" by simp
  have h3: "\<forall>l. ss_limit (InstancePairing_init None DS_None) = Some l \<longrightarrow> 0 \<le> l"
    by (simp add: InstancePairing_init_def)
  have h4: "\<forall>l. ds_limit (InstancePairing_init None DS_None) = DS_Int l \<longrightarrow> 0 \<le> l"
    by (simp add: InstancePairing_init_def)
  from multi_class_pairing [OF h1 h2 h3 h4, of "[]"] obtain out where
    run: "transform (InstancePairing_init None DS_None) [] [[1::int], [2], [3], [4]] [0::int, 1, 2, 0]
          = Inr out"
    by blast
  then have "pairing (self_after out) = Some [(0, 3), (0, 1), (0, 2), (1, 2), (1, 3), (2, 3)]"
    and "y_paired out = [1, 0, 0, 0, 0, 0]"
    by (auto simp: transform_def same_source_def meshgrid_pairs_def rows_same_candidates_def
      rows_diff_candidates_def np_where_def InstancePairing_init_def upt_rec)
  with run show ?thesis by blast
qed

end
